theory Spec2Isabelle
  imports Main
begin

section \<open>The chat SDK as the screens see it\<close>

text \<open>
  The screens of this application are glue around an external chat SDK: they create
  collection objects, register callbacks on them, read their getters while rendering and
  call a few of their methods. The SDK's own code is not part of the repository, so the
  model records \<^emph>\<open>which calls a screen makes\<close> (a trace of effects) and \<^emph>\<open>what it
  reads\<close> (a view of the SDK given to each step), and leaves what the SDK does with a
  call to the environment.

  Objects are compared by reference in the source (\<open>state?.collection\<close> as an effect
  dependency), so a collection is modelled by its identity, a natural number, and a JS
  array by its address in a heap.
\<close>

type_synonym cid = nat
type_synonym addr = nat
type_synonym 'm heap = "addr \<Rightarrow> 'm list"

text \<open>\<open>GroupChannel\<close>: the screens read only \<open>url\<close>; \<open>payload\<close> stands for the rest.\<close>

record GroupChannel =
  url :: string
  payload :: nat

text \<open>
  \<open>CollectionEventSource\<close> is an enumeration of the SDK. The source names two of its
  members; every other member is \<open>OtherSource n\<close>.
\<close>

datatype CollectionEventSource =
    SYNC_MESSAGE_FILL
  | EVENT_MESSAGE_RECEIVED
  | OtherSource nat

text \<open>
  The value a promise of the SDK is rejected with. The screens construct no error of
  their own; the named members are the taxonomy of the specification.
\<close>

datatype error =
    NotFound
  | InProgress
  | NoMoreData
  | GapDetected
  | SubmissionFailed
  | SdkError string

text \<open>
  What \<open>GroupChannelScreen\<close> reads of a \<open>MessageCollection\<close>: the arrays its three
  getters return and the two pagination flags.
\<close>

record MessageCollection =
  failedMessages :: addr
  pendingMessages :: addr
  succeededMessages :: addr
  hasNext :: bool
  hasPrevious :: bool

record sdk_view =
  currentUser :: "string option"
  messageCollection :: "cid \<Rightarrow> MessageCollection"
  hasMore :: bool

text \<open>Calls that leave a screen: to the SDK, to the navigation and to React.\<close>

datatype effect =
    CreateGroupChannelCollection
  | SetGroupChannelCollectionHandler
  | LoadMore
  | DisposeGroupChannelCollection
  | GetChannel string
  | CreateMessageCollection cid
  | SetMessageCollectionHandler cid
  | Initialize cid
  | MarkAsRead string
  | Dispose cid
  | LoadNext cid
  | LoadPrevious cid
  | AddGroupChannelHandler
  | RemoveGroupChannelHandler
  | Rerender
  | GoBack

text \<open>The state of the promise an \<open>async\<close> callback has returned.\<close>

datatype outcome = Resolved | Rejected error | Pending


section \<open>GroupChannelScreen\<close>

text \<open>
  \<open>useState<{channel; collection}>()\<close>: the React state is undefined until the first
  result of \<open>initialize\<close> arrives.
\<close>

record screen_state =
  channel :: GroupChannel
  collection :: cid

text \<open>
  A model value stands for one instance of a component: it is mounted once and unmounted
  once; a screen that is opened again is a new instance with a state of its own.
\<close>

datatype lifecycle = NotMounted | Mounted | Unmounted

datatype continuation =
    AwaitGetChannel string
  | AwaitLoadNext cid
  | AwaitLoadPrevious cid

text \<open>
  \<^item> \<open>state\<close>: the React state of the current render;
  \<^item> \<open>phase\<close>: where the instance is in its life;
  \<^item> \<open>closures\<close>: one entry per collection that \<open>initializeCollection\<close> has created, with
    the \<open>channelUrl\<close> and \<open>channel\<close> its handler closes over;
  \<^item> \<open>bannedLeftHandler\<close>: the \<open>state\<close> that the handler of the third effect closes over
    (\<open>None\<close> while no handler has been registered);
  \<^item> \<open>awaiting\<close>: the suspended \<open>await\<close>s;
  \<^item> \<open>trace\<close>: the calls made so far, oldest first.
\<close>

record GroupChannelScreen =
  state :: "screen_state option"
  phase :: lifecycle
  closures :: "(cid \<times> string \<times> GroupChannel) list"
  bannedLeftHandler :: "screen_state option option"
  awaiting :: "continuation list"
  trace :: "effect list"

definition initialScreen :: GroupChannelScreen where
  "initialScreen =
     \<lparr>state = None, phase = NotMounted, closures = [], bannedLeftHandler = None,
      awaiting = [], trace = []\<rparr>"

definition emit :: "effect \<Rightarrow> GroupChannelScreen \<Rightarrow> GroupChannelScreen" where
  "emit e scr = scr\<lparr>trace := trace scr @ [e]\<rparr>"

definition emits :: "effect list \<Rightarrow> GroupChannelScreen \<Rightarrow> GroupChannelScreen" where
  "emits es scr = scr\<lparr>trace := trace scr @ es\<rparr>"

text \<open>
  The second effect, with dependency \<open>[state?.collection]\<close>: when a commit changes the
  collection in the state, React runs the cleanup of the previous run, which calls
  \<open>state?.collection.dispose()\<close> on the state of that run.
\<close>

definition disposeCleanup :: "screen_state option \<Rightarrow> GroupChannelScreen \<Rightarrow> GroupChannelScreen" where
  "disposeCleanup old scr =
     (case old of None \<Rightarrow> scr | Some s \<Rightarrow> emit (Dispose (collection s)) scr)"

text \<open>
  \<open>setState\<close>, with React's rule that an update of an unmounted component is dropped.
\<close>

definition setState ::
  "(screen_state option \<Rightarrow> screen_state option) \<Rightarrow> GroupChannelScreen \<Rightarrow> GroupChannelScreen" where
  "setState f scr =
     (if phase scr = Mounted then
        (let old = state scr; new = f old; scr' = scr\<lparr>state := new\<rparr>
         in if map_option collection old = map_option collection new then scr'
            else disposeCleanup old scr')
      else scr)"

text \<open>
  \<open>initializeCollection\<close> up to its \<open>await\<close>, and from the \<open>await\<close> on. A rejection of
  \<open>getChannel\<close> is caught and answered with \<open>navigation.goBack()\<close>. A collection that is
  created gets the next unused identity. The SDK calls after the \<open>await\<close> are taken
  not to throw. Calls of the logger are not modelled.
\<close>

definition initializeCollection :: "string \<Rightarrow> GroupChannelScreen \<Rightarrow> GroupChannelScreen" where
  "initializeCollection channelUrl scr =
     emit (GetChannel channelUrl)
       (scr\<lparr>awaiting := awaiting scr @ [AwaitGetChannel channelUrl]\<rparr>)"

definition initializeCollection_resumed ::
  "string \<Rightarrow> error + GroupChannel \<Rightarrow> GroupChannelScreen \<Rightarrow> GroupChannelScreen" where
  "initializeCollection_resumed channelUrl r scr =
     (case r of
        Inl e \<Rightarrow> emit GoBack scr
      | Inr ch \<Rightarrow>
          (let c = length (closures scr)
           in emits [CreateMessageCollection c, SetMessageCollectionHandler c,
                     Initialize c, MarkAsRead (url ch)]
                (scr\<lparr>closures := closures scr @ [(c, channelUrl, ch)]\<rparr>)))"

text \<open>The handlers given to \<open>setMessageCollectionHandler\<close>.\<close>

definition onChannelDeleted :: "GroupChannelScreen \<Rightarrow> GroupChannelScreen" where
  "onChannelDeleted scr = emit GoBack scr"

definition onChannelUpdated :: "GroupChannel \<Rightarrow> GroupChannelScreen \<Rightarrow> GroupChannelScreen" where
  "onChannelUpdated ch scr =
     setState (\<lambda>prev. case prev of None \<Rightarrow> None | Some s \<Rightarrow> Some (s\<lparr>channel := ch\<rparr>)) scr"

definition onMessagesUpdated :: "GroupChannelScreen \<Rightarrow> GroupChannelScreen" where
  "onMessagesUpdated scr = emit Rerender scr"

definition onMessagesAdded ::
  "GroupChannel \<Rightarrow> CollectionEventSource \<Rightarrow> GroupChannelScreen \<Rightarrow> GroupChannelScreen" where
  "onMessagesAdded ch source scr =
     (let scr' = emit Rerender scr
      in if source \<in> set [SYNC_MESSAGE_FILL, EVENT_MESSAGE_RECEIVED]
         then emit (MarkAsRead (url ch)) scr' else scr')"

definition onMessagesDeleted :: "GroupChannelScreen \<Rightarrow> GroupChannelScreen" where
  "onMessagesDeleted scr = emit Rerender scr"

definition onHugeGapDetected :: "string \<Rightarrow> GroupChannelScreen \<Rightarrow> GroupChannelScreen" where
  "onHugeGapDetected channelUrl scr = initializeCollection channelUrl scr"

text \<open>
  \<open>onCacheResult\<close> and \<open>onApiResult\<close> have the same body; \<open>n\<close> is \<open>messages?.length\<close>
  (\<open>None\<close> when no messages are passed).
\<close>

definition onInitResult ::
  "GroupChannel \<Rightarrow> cid \<Rightarrow> nat option \<Rightarrow> GroupChannelScreen \<Rightarrow> GroupChannelScreen" where
  "onInitResult ch c n scr =
     setState (\<lambda>_. Some \<lparr>channel = ch, collection = c\<rparr>)
       (case n of None \<Rightarrow> scr
        | Some k \<Rightarrow> if 0 < k then emit Rerender scr else scr)"

text \<open>
  The handlers of the third effect. Its dependency list is empty, so the functions are
  built once, in the effect of the first commit, and \<open>state\<close> in their bodies is the state
  of that render, passed here as \<open>captured\<close>.
\<close>

definition onUserBanned ::
  "screen_state option \<Rightarrow> sdk_view \<Rightarrow> GroupChannel \<Rightarrow> string \<Rightarrow> GroupChannelScreen \<Rightarrow> GroupChannelScreen" where
  "onUserBanned captured sdk eventChannel userId scr =
     (if Some (url eventChannel) = map_option (url \<circ> channel) captured
         \<and> Some userId = currentUser sdk
      then emit GoBack scr else scr)"

definition onUserLeft ::
  "screen_state option \<Rightarrow> sdk_view \<Rightarrow> GroupChannel \<Rightarrow> string \<Rightarrow> GroupChannelScreen \<Rightarrow> GroupChannelScreen" where
  "onUserLeft captured sdk eventChannel userId scr =
     (if Some (url eventChannel) = map_option (url \<circ> channel) captured
         \<and> Some userId = currentUser sdk
      then emit GoBack scr else scr)"

text \<open>
  The two scroll callbacks, up to their \<open>await\<close> and from it on. They exist only in a
  render with a defined state. The result pairs the state of the promise the callback
  returned with the screen.
\<close>

definition onStartReached :: "sdk_view \<Rightarrow> GroupChannelScreen \<Rightarrow> outcome \<times> GroupChannelScreen" where
  "onStartReached sdk scr =
     (case state scr of
        None \<Rightarrow> (Resolved, scr)
      | Some s \<Rightarrow>
          if hasNext (messageCollection sdk (collection s))
          then (Pending, emit (LoadNext (collection s))
                  (scr\<lparr>awaiting := awaiting scr @ [AwaitLoadNext (collection s)]\<rparr>))
          else (Resolved, scr))"

definition onEndReached :: "sdk_view \<Rightarrow> GroupChannelScreen \<Rightarrow> outcome \<times> GroupChannelScreen" where
  "onEndReached sdk scr =
     (case state scr of
        None \<Rightarrow> (Resolved, scr)
      | Some s \<Rightarrow>
          if hasPrevious (messageCollection sdk (collection s))
          then (Pending, emit (LoadPrevious (collection s))
                  (scr\<lparr>awaiting := awaiting scr @ [AwaitLoadPrevious (collection s)]\<rparr>))
          else (Resolved, scr))"

definition onReached_resumed ::
  "error + nat \<Rightarrow> GroupChannelScreen \<Rightarrow> outcome \<times> GroupChannelScreen" where
  "onReached_resumed r scr =
     (case r of Inl e \<Rightarrow> (Rejected e, scr) | Inr n \<Rightarrow> (Resolved, emit Rerender scr))"

text \<open>
  Mounting runs the three effects of the first commit in the order they are written:
  the first starts \<open>initializeCollection\<close> when \<open>params?.channelUrl\<close> is truthy (an empty
  string is not) and goes back otherwise; the second has nothing to do yet; the third
  registers the banned/left handler, closing over the state of this render. Unmounting
  runs the cleanups in the same order.
\<close>

definition mount :: "string option \<Rightarrow> GroupChannelScreen \<Rightarrow> GroupChannelScreen" where
  "mount channelUrl scr =
     (let scr1 = scr\<lparr>phase := Mounted\<rparr>;
          scr2 = (case channelUrl of
                    None \<Rightarrow> emit GoBack scr1
                  | Some u \<Rightarrow> if u = [] then emit GoBack scr1 else initializeCollection u scr1)
      in emit AddGroupChannelHandler (scr2\<lparr>bannedLeftHandler := Some (state scr2)\<rparr>))"

definition unmount :: "GroupChannelScreen \<Rightarrow> GroupChannelScreen" where
  "unmount scr =
     emit RemoveGroupChannelHandler (disposeCleanup (state scr) (scr\<lparr>phase := Unmounted\<rparr>))"

text \<open>
  What can happen to the screen. An event of a collection carries the collection's
  identity; the handler that runs is the one created with that collection. A settled
  \<open>await\<close> resumes only a callback that is suspended on it. An event is handled to
  its end, with the commit of a state update and the cleanup that the commit runs, before
  the next event is taken. The model does not decide which events the SDK sends: an
  event of a collection is handled whenever it comes, also after \<open>dispose\<close>.
\<close>

datatype event =
    Mount "string option"
  | Unmount
  | GetChannelSettled string "error + GroupChannel"
  | CacheResult cid "nat option"
  | ApiResult cid "nat option"
  | ChannelDeleted cid
  | ChannelUpdated cid GroupChannel
  | MessagesUpdated cid
  | MessagesAdded cid CollectionEventSource
  | MessagesDeleted cid
  | HugeGapDetected cid
  | StartReached
  | EndReached
  | LoadNextSettled cid "error + nat"
  | LoadPreviousSettled cid "error + nat"
  | UserBanned GroupChannel string
  | UserLeft GroupChannel string

definition withClosure ::
  "cid \<Rightarrow> (string \<Rightarrow> GroupChannel \<Rightarrow> GroupChannelScreen \<Rightarrow> GroupChannelScreen)
     \<Rightarrow> GroupChannelScreen \<Rightarrow> GroupChannelScreen" where
  "withClosure c k scr =
     (case map_of (closures scr) c of None \<Rightarrow> scr | Some (u, ch) \<Rightarrow> k u ch scr)"

definition resume ::
  "continuation \<Rightarrow> (GroupChannelScreen \<Rightarrow> GroupChannelScreen)
     \<Rightarrow> GroupChannelScreen \<Rightarrow> GroupChannelScreen" where
  "resume w k scr =
     (if w \<in> set (awaiting scr) then k (scr\<lparr>awaiting := remove1 w (awaiting scr)\<rparr>) else scr)"

fun step :: "sdk_view \<Rightarrow> event \<Rightarrow> GroupChannelScreen \<Rightarrow> GroupChannelScreen" where
  "step sdk (Mount p) scr = (if phase scr = NotMounted then mount p scr else scr)"
| "step sdk Unmount scr = (if phase scr = Mounted then unmount scr else scr)"
| "step sdk (GetChannelSettled u r) scr =
     resume (AwaitGetChannel u) (initializeCollection_resumed u r) scr"
| "step sdk (CacheResult c n) scr = withClosure c (\<lambda>u ch. onInitResult ch c n) scr"
| "step sdk (ApiResult c n) scr = withClosure c (\<lambda>u ch. onInitResult ch c n) scr"
| "step sdk (ChannelDeleted c) scr = withClosure c (\<lambda>u ch. onChannelDeleted) scr"
| "step sdk (ChannelUpdated c ch') scr = withClosure c (\<lambda>u ch. onChannelUpdated ch') scr"
| "step sdk (MessagesUpdated c) scr = withClosure c (\<lambda>u ch. onMessagesUpdated) scr"
| "step sdk (MessagesAdded c source) scr = withClosure c (\<lambda>u ch. onMessagesAdded ch source) scr"
| "step sdk (MessagesDeleted c) scr = withClosure c (\<lambda>u ch. onMessagesDeleted) scr"
| "step sdk (HugeGapDetected c) scr = withClosure c (\<lambda>u ch. onHugeGapDetected u) scr"
| "step sdk StartReached scr = (if phase scr = Mounted then snd (onStartReached sdk scr) else scr)"
| "step sdk EndReached scr = (if phase scr = Mounted then snd (onEndReached sdk scr) else scr)"
| "step sdk (LoadNextSettled c r) scr =
     resume (AwaitLoadNext c) (\<lambda>s. snd (onReached_resumed r s)) scr"
| "step sdk (LoadPreviousSettled c r) scr =
     resume (AwaitLoadPrevious c) (\<lambda>s. snd (onReached_resumed r s)) scr"
| "step sdk (UserBanned ch u) scr =
     (case bannedLeftHandler scr of
        None \<Rightarrow> scr | Some captured \<Rightarrow> onUserBanned captured sdk ch u scr)"
| "step sdk (UserLeft ch u) scr =
     (case bannedLeftHandler scr of
        None \<Rightarrow> scr | Some captured \<Rightarrow> onUserLeft captured sdk ch u scr)"

text \<open>A run: each event is handled against the view of the SDK at its moment.\<close>

fun run :: "(sdk_view \<times> event) list \<Rightarrow> GroupChannelScreen \<Rightarrow> GroupChannelScreen" where
  "run [] scr = scr"
| "run ((sdk, e) # es) scr = run es (step sdk e scr)"


section \<open>Rendering the message list\<close>

text \<open>
  \<open>Array.prototype.reverse\<close> reverses the array in place and returns the same array; the
  spread \<open>...a\<close> copies the elements the array holds at that moment. The elements of an
  array literal are evaluated from left to right.
\<close>

definition js_reverse :: "addr \<Rightarrow> 'm heap \<Rightarrow> 'm heap" where
  "js_reverse a h = h(a := rev (h a))"

definition flatListData :: "MessageCollection \<Rightarrow> 'm heap \<Rightarrow> 'm list \<times> 'm heap" where
  "flatListData c h0 =
     (let h1 = js_reverse (failedMessages c) h0;
          xs = h1 (failedMessages c);
          h2 = js_reverse (pendingMessages c) h1;
          ys = h2 (pendingMessages c);
          h3 = js_reverse (succeededMessages c) h2;
          zs = h3 (succeededMessages c)
      in (xs @ ys @ zs, h3))"

datatype 'm view = ActivityIndicator | FlatList "'m list"

definition render :: "sdk_view \<Rightarrow> 'm heap \<Rightarrow> GroupChannelScreen \<Rightarrow> 'm view \<times> 'm heap" where
  "render sdk h scr =
     (case state scr of
        None \<Rightarrow> (ActivityIndicator, h)
      | Some s \<Rightarrow>
          (case flatListData (messageCollection sdk (collection s)) h of
             (d, h') \<Rightarrow> (FlatList d, h')))"


section \<open>GroupChannelListScreen\<close>

text \<open>
  The collection is created by the initialiser of \<open>useState\<close> in the first render. The
  effect of the first commit registers the handler and starts the first \<open>loadMore\<close>,
  whose \<open>then(forceUpdate)\<close> runs when the promise resolves; its cleanup disposes the
  collection. The three handlers and the continuation of \<open>loadMore\<close> call
  \<open>forceUpdate\<close>. \<open>onEndReached\<close> does not await \<open>loadMore\<close>, so its own promise
  resolves at once. \<open>loading\<close> counts the \<open>loadMore\<close> promises not yet settled.
\<close>

record GroupChannelListScreen =
  listPhase :: lifecycle
  loading :: nat
  listTrace :: "effect list"

definition initialListScreen :: GroupChannelListScreen where
  "initialListScreen = \<lparr>listPhase = NotMounted, loading = 0, listTrace = []\<rparr>"

definition listEmit :: "effect list \<Rightarrow> GroupChannelListScreen \<Rightarrow> GroupChannelListScreen" where
  "listEmit es l = l\<lparr>listTrace := listTrace l @ es\<rparr>"

definition listMount :: "GroupChannelListScreen \<Rightarrow> GroupChannelListScreen" where
  "listMount l =
     listEmit [CreateGroupChannelCollection, SetGroupChannelCollectionHandler, LoadMore]
       (l\<lparr>listPhase := Mounted, loading := Suc (loading l)\<rparr>)"

definition listUnmount :: "GroupChannelListScreen \<Rightarrow> GroupChannelListScreen" where
  "listUnmount l = listEmit [DisposeGroupChannelCollection] (l\<lparr>listPhase := Unmounted\<rparr>)"

definition forceUpdate :: "GroupChannelListScreen \<Rightarrow> GroupChannelListScreen" where
  "forceUpdate l = listEmit [Rerender] l"

definition listOnEndReached ::
  "sdk_view \<Rightarrow> GroupChannelListScreen \<Rightarrow> outcome \<times> GroupChannelListScreen" where
  "listOnEndReached sdk l =
     (if hasMore sdk
      then (Resolved, listEmit [LoadMore] (l\<lparr>loading := Suc (loading l)\<rparr>))
      else (Resolved, l))"

datatype list_event =
    ListMount
  | ListUnmount
  | ChannelsAdded
  | ChannelsDeleted
  | ChannelsUpdated
  | ListEndReached
  | LoadMoreSettled "error + nat"

fun listStep :: "sdk_view \<Rightarrow> list_event \<Rightarrow> GroupChannelListScreen \<Rightarrow> GroupChannelListScreen" where
  "listStep sdk ListMount l = (if listPhase l = NotMounted then listMount l else l)"
| "listStep sdk ListUnmount l = (if listPhase l = Mounted then listUnmount l else l)"
| "listStep sdk ChannelsAdded l = forceUpdate l"
| "listStep sdk ChannelsDeleted l = forceUpdate l"
| "listStep sdk ChannelsUpdated l = forceUpdate l"
| "listStep sdk ListEndReached l = (if listPhase l = Mounted then snd (listOnEndReached sdk l) else l)"
| "listStep sdk (LoadMoreSettled r) l =
     (if 0 < loading l
      then (case r of Inl e \<Rightarrow> l\<lparr>loading := loading l - 1\<rparr>
            | Inr n \<Rightarrow> forceUpdate (l\<lparr>loading := loading l - 1\<rparr>))
      else l)"

fun listRun ::
  "(sdk_view \<times> list_event) list \<Rightarrow> GroupChannelListScreen \<Rightarrow> GroupChannelListScreen" where
  "listRun [] l = l"
| "listRun ((sdk, e) # es) l = listRun es (listStep sdk e l)"


section \<open>ConnectScreen\<close>

text \<open>
  The state of the form is \<open>{id, accessToken}\<close> (the field \<open>id\<close> is \<open>id_text\<close> here,
  since \<open>id\<close> is the identity function of HOL). \<open>sdk.connect\<close> takes a user id and an
  optional token; it is a parameter of the model, and the calls made to it are recorded
  in the root context beside the user that \<open>setUser\<close> stores. When the promise of
  \<open>connect\<close> is rejected, \<open>setUser\<close> is not reached.
\<close>

record connect_state =
  id_text :: string
  accessToken :: string

record 'u root_context =
  user :: "'u option"
  connectCalls :: "(string \<times> string option) list"

definition initialConnectState :: connect_state where
  "initialConnectState = \<lparr>id_text = [], accessToken = []\<rparr>"

definition signIn ::
  "(string \<Rightarrow> string option \<Rightarrow> error + 'u) \<Rightarrow> connect_state \<Rightarrow> 'u root_context
     \<Rightarrow> outcome \<times> 'u root_context" where
  "signIn connect st root =
     (let root' = root\<lparr>connectCalls := connectCalls root @ [(id_text st, None)]\<rparr>
      in case connect (id_text st) None of
           Inl e \<Rightarrow> (Rejected e, root')
         | Inr u \<Rightarrow> (Resolved, root'\<lparr>user := Some u\<rparr>))"

datatype connect_event = ChangeId string | ChangeAccessToken string | PressConnect

fun isAccessTokenEdit :: "connect_event \<Rightarrow> bool" where
  "isAccessTokenEdit (ChangeAccessToken t) = True"
| "isAccessTokenEdit e = False"

fun connectStep ::
  "(string \<Rightarrow> string option \<Rightarrow> error + 'u) \<Rightarrow> connect_event
     \<Rightarrow> connect_state \<times> 'u root_context \<Rightarrow> connect_state \<times> 'u root_context" where
  "connectStep connect (ChangeId i) (st, root) = (st\<lparr>id_text := i\<rparr>, root)"
| "connectStep connect (ChangeAccessToken t) (st, root) = (st\<lparr>accessToken := t\<rparr>, root)"
| "connectStep connect PressConnect (st, root) = (st, snd (signIn connect st root))"

fun connectRun ::
  "(string \<Rightarrow> string option \<Rightarrow> error + 'u) \<Rightarrow> connect_event list
     \<Rightarrow> connect_state \<times> 'u root_context \<Rightarrow> connect_state \<times> 'u root_context" where
  "connectRun connect [] s = s"
| "connectRun connect (e # es) s = connectRun connect es (connectStep connect e s)"


section \<open>Reachable screens\<close>

text \<open>
  Facts about every screen that a run from \<open>initialScreen\<close> can reach: the collections
  created so far are numbered in the order of their creation; the collection in the state
  is one of them; before mounting there is no state and no banned/left handler; and the
  banned/left handler, once registered, closes over an undefined state.
\<close>

definition wellFormed :: "GroupChannelScreen \<Rightarrow> bool" where
  "wellFormed scr =
     (map fst (closures scr) = [0..<length (closures scr)]
      \<and> (case state scr of None \<Rightarrow> True | Some s \<Rightarrow> collection s < length (closures scr))
      \<and> (if phase scr = NotMounted
         then state scr = None \<and> bannedLeftHandler scr = None
         else bannedLeftHandler scr = Some None))"


section \<open>Example values\<close>

definition exampleChannel :: GroupChannel where
  "exampleChannel = \<lparr>url = ''ch'', payload = 0\<rparr>"

definition exampleCollection :: "bool \<Rightarrow> bool \<Rightarrow> MessageCollection" where
  "exampleCollection n p =
     \<lparr>failedMessages = 0, pendingMessages = 1, succeededMessages = 2,
      hasNext = n, hasPrevious = p\<rparr>"

definition exampleSdk :: "bool \<Rightarrow> sdk_view" where
  "exampleSdk b =
     \<lparr>currentUser = Some ''me'', messageCollection = (\<lambda>c. exampleCollection b b),
      hasMore = b\<rparr>"

definition exampleHeap :: "nat heap" where
  "exampleHeap =
     (\<lambda>a. if a = 0 then [1, 2] else if a = 1 then [3, 4] else if a = 2 then [5, 6, 7] else [])"

text \<open>
  The message screen after it was opened on channel \<open>ch\<close>, the channel was fetched and
  the first result of \<open>initialize\<close> came in with three messages.
\<close>

definition openedScreen :: GroupChannelScreen where
  "openedScreen =
     run [(exampleSdk True, Mount (Some ''ch'')),
          (exampleSdk True, GetChannelSettled ''ch'' (Inr exampleChannel)),
          (exampleSdk True, CacheResult 0 (Some 3))] initialScreen"


section \<open>The subscription of the message screen\<close>

text \<open>
  The screen is subscribed to collection \<open>a\<close> when it is mounted and \<open>a\<close> is the
  collection in its state.
\<close>

definition subscribedTo :: "cid \<Rightarrow> GroupChannelScreen \<Rightarrow> bool" where
  "subscribedTo a scr = (phase scr = Mounted \<and> map_option collection (state scr) = Some a)"

text \<open>
  The events that leave a subscription to \<open>a\<close> as it is: everything but mounting and
  unmounting, a settled \<open>getChannel\<close>, a detected gap, and an initialisation result of a
  collection other than \<open>a\<close>.
\<close>

fun quiet :: "cid \<Rightarrow> event \<Rightarrow> bool" where
  "quiet a (Mount p) = False"
| "quiet a Unmount = False"
| "quiet a (GetChannelSettled u r) = False"
| "quiet a (HugeGapDetected c) = False"
| "quiet a (CacheResult c n) = (c = a)"
| "quiet a (ApiResult c n) = (c = a)"
| "quiet a e = True"

text \<open>
  The calls that create, initialise and dispose collections.
\<close>

fun lifecycleEffect :: "effect \<Rightarrow> bool" where
  "lifecycleEffect (GetChannel u) = True"
| "lifecycleEffect (CreateMessageCollection c) = True"
| "lifecycleEffect (SetMessageCollectionHandler c) = True"
| "lifecycleEffect (Initialize c) = True"
| "lifecycleEffect (Dispose c) = True"
| "lifecycleEffect e = False"


section \<open>Example values for a resync\<close>

text \<open>
  A second channel object for the re-fetched channel; a view of the SDK in which every
  collection after the first has arrays of its own (\<open>3\<close>, \<open>4\<close>, \<open>5\<close>); a heap in which the
  succeeded messages of the first collection are \<open>5, 6, 7\<close> and those of the later one
  are \<open>6, 7, 8\<close>.
\<close>

definition freshChannel :: GroupChannel where
  "freshChannel = \<lparr>url = ''ch'', payload = 1\<rparr>"

definition resyncSdk :: sdk_view where
  "resyncSdk =
     \<lparr>currentUser = Some ''me'',
      messageCollection =
        (\<lambda>c. if c = 0 then exampleCollection True True
             else \<lparr>failedMessages = 3, pendingMessages = 4, succeededMessages = 5,
                   hasNext = True, hasPrevious = True\<rparr>),
      hasMore = True\<rparr>"

definition resyncHeap :: "nat heap" where
  "resyncHeap =
     (\<lambda>a. if a = 0 then [1, 2] else if a = 1 then [3, 4] else if a = 2 then [5, 6, 7]
          else if a = 5 then [6, 7, 8] else [])"

text \<open>
  A gap that is detected on the first collection before its first initialisation result
  has come in, followed by a successful resync.
\<close>

definition gapBeforeFirstResult :: "(sdk_view \<times> event) list" where
  "gapBeforeFirstResult =
     [(resyncSdk, Mount (Some ''ch'')),
      (resyncSdk, GetChannelSettled ''ch'' (Inr exampleChannel)),
      (resyncSdk, HugeGapDetected 0),
      (resyncSdk, GetChannelSettled ''ch'' (Inr freshChannel)),
      (resyncSdk, CacheResult 1 (Some 3))]"

text \<open>
  A resync on the opened screen, with other events between its steps and after it.
\<close>

definition resyncEvents :: "(sdk_view \<times> event) list" where
  "resyncEvents =
     [(resyncSdk, HugeGapDetected 0),
      (resyncSdk, MessagesAdded 0 EVENT_MESSAGE_RECEIVED),
      (resyncSdk, GetChannelSettled ''ch'' (Inr freshChannel)),
      (resyncSdk, EndReached),
      (resyncSdk, CacheResult 1 (Some 3)),
      (resyncSdk, ApiResult 1 (Some 3)),
      (resyncSdk, MessagesUpdated 1)]"

text \<open>The channel list after its first commit: the first \<open>loadMore\<close> is outstanding.\<close>

definition mountedList :: GroupChannelListScreen where
  "mountedList = listRun [(exampleSdk True, ListMount)] initialListScreen"


section \<open>Facts about reachable screens\<close>

lemma openedScreen_eq:
  "openedScreen =
     \<lparr>state = Some \<lparr>channel = exampleChannel, collection = 0\<rparr>, phase = Mounted,
      closures = [(0, ''ch'', exampleChannel)], bannedLeftHandler = Some None,
      awaiting = [],
      trace = [GetChannel ''ch'', AddGroupChannelHandler, CreateMessageCollection 0,
               SetMessageCollectionHandler 0, Initialize 0, MarkAsRead ''ch'', Rerender]\<rparr>"
  by (simp add: openedScreen_def initialScreen_def mount_def initializeCollection_def emit_def
      emits_def resume_def initializeCollection_resumed_def withClosure_def onInitResult_def
      setState_def disposeCleanup_def exampleChannel_def Let_def)

lemma wellFormed_initial: "wellFormed initialScreen"
  by (simp add: wellFormed_def initialScreen_def)

lemma map_of_fresh:
  assumes "map fst xs = [0..<length xs]"
  shows "map_of xs (length xs) = None"
proof -
  have "length xs \<notin> set (map fst xs)" by (simp add: assms)
  then show ?thesis by (simp add: map_of_eq_None_iff)
qed

lemma key_bound:
  assumes "map fst xs = [0..<length xs]" and "(k, v) \<in> set xs"
  shows "k < length xs"
proof -
  have "k \<in> set (map fst xs)" using assms(2) by force
  then show ?thesis by (simp add: assms(1))
qed

lemma wellFormed_step: "wellFormed scr \<Longrightarrow> wellFormed (step sdk e scr)"
  by (cases e)
     (auto simp: wellFormed_def mount_def unmount_def initializeCollection_def emit_def emits_def
        resume_def initializeCollection_resumed_def withClosure_def onInitResult_def
        setState_def disposeCleanup_def onChannelDeleted_def onChannelUpdated_def
        onMessagesUpdated_def onMessagesAdded_def onMessagesDeleted_def onHugeGapDetected_def
        onStartReached_def onEndReached_def onReached_resumed_def onUserBanned_def
        onUserLeft_def Let_def
        split: option.splits sum.splits if_splits dest: map_of_SomeD key_bound)

lemma wellFormed_run: "wellFormed scr \<Longrightarrow> wellFormed (run es scr)"
proof (induction es arbitrary: scr)
  case Nil
  then show ?case by simp
next
  case (Cons p es)
  obtain sdk e where p: "p = (sdk, e)" by (cases p)
  from Cons.prems have "wellFormed (step sdk e scr)" by (rule wellFormed_step)
  then show ?case unfolding p by (simp add: Cons.IH)
qed

lemma wellFormed_reachable: "wellFormed (run es initialScreen)"
  by (rule wellFormed_run) (rule wellFormed_initial)

text \<open>
  On a reachable screen the collection in the state is one that \<open>initializeCollection\<close>
  created, so its handler and the \<open>channelUrl\<close> the handler closes over are known.
\<close>

lemma reachable_state_has_closure:
  assumes "state (run es initialScreen) = Some s"
  shows "\<exists>u ch. map_of (closures (run es initialScreen)) (collection s) = Some (u, ch)"
proof -
  let ?scr = "run es initialScreen"
  have wf: "wellFormed ?scr" by (rule wellFormed_reachable)
  then have keys: "map fst (closures ?scr) = [0..<length (closures ?scr)]"
    by (simp add: wellFormed_def)
  from wf assms have "collection s < length (closures ?scr)"
    by (simp add: wellFormed_def)
  then have "collection s \<in> set (map fst (closures ?scr))"
    by (simp add: keys)
  then have "map_of (closures ?scr) (collection s) \<noteq> None"
    by (simp add: map_of_eq_None_iff)
  then show ?thesis by auto
qed


section \<open>The order of the rendered messages\<close>

lemma js_reverse_same: "js_reverse a h a = rev (h a)"
  by (simp add: js_reverse_def)

lemma js_reverse_other: "b \<noteq> a \<Longrightarrow> js_reverse a h b = h b"
  by (simp add: js_reverse_def)

lemma flatListData_buckets:
  assumes "failedMessages c \<noteq> pendingMessages c"
      and "failedMessages c \<noteq> succeededMessages c"
      and "pendingMessages c \<noteq> succeededMessages c"
  shows "fst (flatListData c h) =
           rev (h (failedMessages c)) @ rev (h (pendingMessages c)) @ rev (h (succeededMessages c))"
  using assms by (simp add: flatListData_def Let_def js_reverse_same js_reverse_other)

text \<open>
  The reversal is done in place: after a render the three arrays that the getters
  returned hold their elements in the opposite order.
\<close>

lemma flatListData_reverses_in_place:
  assumes "failedMessages c \<noteq> pendingMessages c"
      and "failedMessages c \<noteq> succeededMessages c"
      and "pendingMessages c \<noteq> succeededMessages c"
  shows "snd (flatListData c h) (failedMessages c) = rev (h (failedMessages c))
       \<and> snd (flatListData c h) (pendingMessages c) = rev (h (pendingMessages c))
       \<and> snd (flatListData c h) (succeededMessages c) = rev (h (succeededMessages c))"
  using assms by (simp add: flatListData_def Let_def js_reverse_def)

text \<open>
  C2. The message screen renders the three buckets in the order failed, pending,
  succeeded, each one reversed: with a defined state, and the three getters returning
  three different arrays, the data of the list is exactly
  \<open>rev failed @ rev pending @ rev succeeded\<close>, where each bucket is what its array holds
  when the render starts.
\<close>

theorem render_bucket_order:
  assumes "state scr = Some s"
      and "c = messageCollection sdk (collection s)"
      and "distinct [failedMessages c, pendingMessages c, succeededMessages c]"
  shows "fst (render sdk h scr) =
           FlatList (rev (h (failedMessages c)) @ rev (h (pendingMessages c))
                       @ rev (h (succeededMessages c)))"
proof -
  have "fst (flatListData c h) =
          rev (h (failedMessages c)) @ rev (h (pendingMessages c)) @ rev (h (succeededMessages c))"
    using assms(3) by (intro flatListData_buckets) auto
  then show ?thesis
    using assms(1,2) by (auto simp: render_def split: prod.splits)
qed

theorem render_bucket_order_witness:
  "fst (render (exampleSdk True) exampleHeap openedScreen) = FlatList [2, 1, 4, 3, 7, 6, 5]"
  using render_bucket_order [of openedScreen "\<lparr>channel = exampleChannel, collection = 0\<rparr>"
      "exampleCollection True True" "exampleSdk True" exampleHeap]
  by (simp add: openedScreen_eq exampleSdk_def exampleCollection_def exampleHeap_def)


section \<open>Loading more\<close>

text \<open>
  With the flag off, the scroll callback of the message screen does not fail with
  \<open>NoMoreData\<close>: its promise resolves.
\<close>

theorem load_without_more_counterexample:
  "state openedScreen = Some \<lparr>channel = exampleChannel, collection = 0\<rparr>
   \<and> hasNext (messageCollection (exampleSdk False) 0) = False
   \<and> fst (onStartReached (exampleSdk False) openedScreen) = Resolved
   \<and> fst (onStartReached (exampleSdk False) openedScreen) \<noteq> Rejected NoMoreData"
  by (simp add: openedScreen_eq onStartReached_def exampleSdk_def exampleCollection_def)

text \<open>
  C3, amended. When the flag of a direction is false, the load-more callback of that
  direction is a silent no-op: its promise resolves (no \<open>NoMoreData\<close>, no other error),
  it calls nothing of the SDK and asks for no re-render, so the screen and the items of
  the collection are as before. This holds for \<open>onStartReached\<close> with \<open>hasNext\<close>,
  \<open>onEndReached\<close> with \<open>hasPrevious\<close>, and the channel list's \<open>onEndReached\<close> with
  \<open>hasMore\<close>.
\<close>

theorem load_without_more_is_silent:
  "(state scr = Some s \<and> \<not> hasNext (messageCollection sdk (collection s))
      \<longrightarrow> onStartReached sdk scr = (Resolved, scr) \<and> step sdk StartReached scr = scr)
   \<and> (state scr = Some s \<and> \<not> hasPrevious (messageCollection sdk (collection s))
      \<longrightarrow> onEndReached sdk scr = (Resolved, scr) \<and> step sdk EndReached scr = scr)
   \<and> (\<not> hasMore sdk
      \<longrightarrow> listOnEndReached sdk l = (Resolved, l) \<and> listStep sdk ListEndReached l = l)"
proof (intro conjI impI)
  assume a: "state scr = Some s \<and> \<not> hasNext (messageCollection sdk (collection s))"
  then show start: "onStartReached sdk scr = (Resolved, scr)"
    by (simp add: onStartReached_def)
  then show "step sdk StartReached scr = scr" by simp
next
  assume a: "state scr = Some s \<and> \<not> hasPrevious (messageCollection sdk (collection s))"
  then show "onEndReached sdk scr = (Resolved, scr)"
    by (simp add: onEndReached_def)
  then show "step sdk EndReached scr = scr" by simp
next
  assume a: "\<not> hasMore sdk"
  then show "listOnEndReached sdk l = (Resolved, l)"
    by (simp add: listOnEndReached_def)
  then show "listStep sdk ListEndReached l = l" by simp
qed

theorem load_without_more_is_silent_witness:
  "onStartReached (exampleSdk False) openedScreen = (Resolved, openedScreen)
   \<and> step (exampleSdk False) StartReached openedScreen = openedScreen
   \<and> onEndReached (exampleSdk False) openedScreen = (Resolved, openedScreen)
   \<and> step (exampleSdk False) EndReached openedScreen = openedScreen
   \<and> listOnEndReached (exampleSdk False) mountedList = (Resolved, mountedList)
   \<and> listStep (exampleSdk False) ListEndReached mountedList = mountedList"
proof -
  have h: "state openedScreen = Some \<lparr>channel = exampleChannel, collection = 0\<rparr>"
    by (simp add: openedScreen_eq)
  have f: "\<not> hasNext (messageCollection (exampleSdk False) 0)
           \<and> \<not> hasPrevious (messageCollection (exampleSdk False) 0)
           \<and> \<not> hasMore (exampleSdk False)"
    by (simp add: exampleSdk_def exampleCollection_def)
  show ?thesis
    using load_without_more_is_silent [of openedScreen
        "\<lparr>channel = exampleChannel, collection = 0\<rparr>" "exampleSdk False" mountedList]
      h f
    by simp
qed

lemma mountedList_eq:
  "mountedList =
     \<lparr>listPhase = Mounted, loading = 1,
      listTrace = [CreateGroupChannelCollection, SetGroupChannelCollectionHandler, LoadMore]\<rparr>"
  by (simp add: mountedList_def initialListScreen_def listMount_def listEmit_def)

lemma two_end_reached:
  assumes "phase scr = Mounted" and "state scr = Some s" and "c = collection s"
      and "hasPrevious (messageCollection sdk1 c)" and "hasPrevious (messageCollection sdk2 c)"
  shows "run [(sdk1, EndReached), (sdk2, EndReached)] scr
           = scr\<lparr>awaiting := awaiting scr @ [AwaitLoadPrevious c, AwaitLoadPrevious c],
                  trace := trace scr @ [LoadPrevious c, LoadPrevious c]\<rparr>"
  using assms by (simp add: onEndReached_def emit_def)

lemma two_start_reached:
  assumes "phase scr = Mounted" and "state scr = Some s" and "c = collection s"
      and "hasNext (messageCollection sdk1 c)" and "hasNext (messageCollection sdk2 c)"
  shows "run [(sdk1, StartReached), (sdk2, StartReached)] scr
           = scr\<lparr>awaiting := awaiting scr @ [AwaitLoadNext c, AwaitLoadNext c],
                  trace := trace scr @ [LoadNext c, LoadNext c]\<rparr>"
  using assms by (simp add: onStartReached_def emit_def)

lemma two_settled:
  assumes "awaiting scr1 = xs @ [w, w]"
      and "w = AwaitLoadPrevious c \<and> ev = LoadPreviousSettled c
           \<or> w = AwaitLoadNext c \<and> ev = LoadNextSettled c"
  shows "trace (run [(sdk3, ev r1), (sdk4, ev r2)] scr1)
           = trace scr1 @ (case r1 of Inl e \<Rightarrow> [] | Inr k \<Rightarrow> [Rerender])
                        @ (case r2 of Inl e \<Rightarrow> [] | Inr k \<Rightarrow> [Rerender])"
  using assms
  by (auto simp: resume_def onReached_resumed_def emit_def remove1_append
      split: sum.splits)

text \<open>
  Two \<open>onEndReached\<close> calls of the channel list that overlap (and overlap the first
  \<open>loadMore\<close> of the mount), with \<open>hasMore\<close> true: \<open>loadMore\<close> is called for each, and
  the promise of the second callback is resolved, not rejected, whatever the SDK answers
  afterwards. On the message screen too, two overlapping calls make two calls of
  \<open>loadPrevious\<close>.
\<close>

theorem overlapping_loads_counterexample:
  "hasMore (exampleSdk True)
   \<and> loading mountedList = 1
   \<and> fst (listOnEndReached (exampleSdk True) mountedList) = Resolved
   \<and> fst (listOnEndReached (exampleSdk True)
            (snd (listOnEndReached (exampleSdk True) mountedList))) = Resolved
   \<and> fst (listOnEndReached (exampleSdk True)
            (snd (listOnEndReached (exampleSdk True) mountedList))) \<noteq> Rejected InProgress
   \<and> listTrace (listRun [(exampleSdk True, ListEndReached), (exampleSdk True, ListEndReached)]
                   mountedList)
       = listTrace mountedList @ [LoadMore, LoadMore]
   \<and> listTrace (listRun [(exampleSdk True, ListEndReached), (exampleSdk True, ListEndReached),
                          (exampleSdk True, LoadMoreSettled (Inr 10)),
                          (exampleSdk True, LoadMoreSettled (Inr 10)),
                          (exampleSdk True, LoadMoreSettled (Inr 10))] mountedList)
       = listTrace mountedList @ [LoadMore, LoadMore, Rerender, Rerender, Rerender]
   \<and> listTrace (listRun [(exampleSdk True, ListEndReached), (exampleSdk True, ListEndReached),
                          (exampleSdk True, LoadMoreSettled (Inr 10)),
                          (exampleSdk True, LoadMoreSettled (Inl InProgress)),
                          (exampleSdk True, LoadMoreSettled (Inl InProgress))] mountedList)
       = listTrace mountedList @ [LoadMore, LoadMore, Rerender]
   \<and> hasPrevious (messageCollection (exampleSdk True) 0)
   \<and> trace (run [(exampleSdk True, EndReached), (exampleSdk True, EndReached)] openedScreen)
       = trace openedScreen @ [LoadPrevious 0, LoadPrevious 0]"
  by (simp add: mountedList_eq openedScreen_eq listOnEndReached_def listEmit_def forceUpdate_def
      onEndReached_def exampleSdk_def exampleCollection_def emit_def)


text \<open>
  C9, amended. The screens neither reject nor coalesce overlapping load-more calls; what
  they do is a function of the flags they read and of the SDK's answers. On a mounted
  message screen, two calls of the same scroll callback that both find the flag of their
  direction true each call the SDK's loader, so two calls go out and both callbacks are
  suspended; when the SDK settles the two calls, each callback ends with the answer to
  its own call: a rejection is passed on as the rejection of the callback and leads to
  no re-render, a page resolves the callback after one re-render. On a mounted channel
  list, two overlapping calls with \<open>hasMore\<close> true each call \<open>loadMore\<close>, both
  callbacks resolve at once, and each \<open>loadMore\<close> that the SDK resolves leads to one
  re-render while a rejected one leads to none. Whether the two calls can yield the
  same page twice is left to the SDK.
\<close>

theorem overlapping_loads_are_both_forwarded:
  assumes "phase scr = Mounted" and "state scr = Some s" and "c = collection s"
      and "listPhase l = Mounted"
  shows "(hasPrevious (messageCollection sdk1 c) \<and> hasPrevious (messageCollection sdk2 c) \<longrightarrow>
            fst (onEndReached sdk1 scr) = Pending
          \<and> fst (onEndReached sdk2 (snd (onEndReached sdk1 scr))) = Pending
          \<and> trace (run [(sdk1, EndReached), (sdk2, EndReached)] scr)
              = trace scr @ [LoadPrevious c, LoadPrevious c]
          \<and> trace (run [(sdk1, EndReached), (sdk2, EndReached),
                         (sdk3, LoadPreviousSettled c r1), (sdk4, LoadPreviousSettled c r2)] scr)
              = trace scr @ [LoadPrevious c, LoadPrevious c]
                  @ (case r1 of Inl e \<Rightarrow> [] | Inr k \<Rightarrow> [Rerender])
                  @ (case r2 of Inl e \<Rightarrow> [] | Inr k \<Rightarrow> [Rerender]))
       \<and> (hasNext (messageCollection sdk1 c) \<and> hasNext (messageCollection sdk2 c) \<longrightarrow>
            fst (onStartReached sdk1 scr) = Pending
          \<and> fst (onStartReached sdk2 (snd (onStartReached sdk1 scr))) = Pending
          \<and> trace (run [(sdk1, StartReached), (sdk2, StartReached)] scr)
              = trace scr @ [LoadNext c, LoadNext c]
          \<and> trace (run [(sdk1, StartReached), (sdk2, StartReached),
                         (sdk3, LoadNextSettled c r1), (sdk4, LoadNextSettled c r2)] scr)
              = trace scr @ [LoadNext c, LoadNext c]
                  @ (case r1 of Inl e \<Rightarrow> [] | Inr k \<Rightarrow> [Rerender])
                  @ (case r2 of Inl e \<Rightarrow> [] | Inr k \<Rightarrow> [Rerender]))
       \<and> onReached_resumed r scr2
           = (case r of Inl e \<Rightarrow> (Rejected e, scr2)
              | Inr k \<Rightarrow> (Resolved, scr2\<lparr>trace := trace scr2 @ [Rerender]\<rparr>))
       \<and> (hasMore sdk1 \<and> hasMore sdk2 \<longrightarrow>
            fst (listOnEndReached sdk1 l) = Resolved
          \<and> fst (listOnEndReached sdk2 (snd (listOnEndReached sdk1 l))) = Resolved
          \<and> listTrace (listRun [(sdk1, ListEndReached), (sdk2, ListEndReached)] l)
              = listTrace l @ [LoadMore, LoadMore]
          \<and> listTrace (listRun [(sdk1, ListEndReached), (sdk2, ListEndReached),
                                 (sdk3, LoadMoreSettled r1), (sdk4, LoadMoreSettled r2)] l)
              = listTrace l @ [LoadMore, LoadMore]
                  @ (case r1 of Inl e \<Rightarrow> [] | Inr k \<Rightarrow> [Rerender])
                  @ (case r2 of Inl e \<Rightarrow> [] | Inr k \<Rightarrow> [Rerender]))"
proof (intro conjI impI)
  assume f: "hasPrevious (messageCollection sdk1 c) \<and> hasPrevious (messageCollection sdk2 c)"
  show "fst (onEndReached sdk1 scr) = Pending"
    using assms f by (simp add: onEndReached_def)
  show "fst (onEndReached sdk2 (snd (onEndReached sdk1 scr))) = Pending"
    using assms f by (simp add: onEndReached_def emit_def)
  define scrA where "scrA = run [(sdk1, EndReached), (sdk2, EndReached)] scr"
  have A: "scrA = scr\<lparr>awaiting := awaiting scr @ [AwaitLoadPrevious c, AwaitLoadPrevious c],
                       trace := trace scr @ [LoadPrevious c, LoadPrevious c]\<rparr>"
    unfolding scrA_def using assms(1,2,3) f by (intro two_end_reached) simp_all
  have t: "trace scrA = trace scr @ [LoadPrevious c, LoadPrevious c]" by (simp add: A)
  have aw: "awaiting scrA = awaiting scr @ [AwaitLoadPrevious c, AwaitLoadPrevious c]"
    by (simp add: A)
  have split: "run [(sdk1, EndReached), (sdk2, EndReached),
                    (sdk3, LoadPreviousSettled c r1), (sdk4, LoadPreviousSettled c r2)] scr
                 = run [(sdk3, LoadPreviousSettled c r1), (sdk4, LoadPreviousSettled c r2)] scrA"
    by (simp add: scrA_def)
  have settled: "trace (run [(sdk3, LoadPreviousSettled c r1),
                             (sdk4, LoadPreviousSettled c r2)] scrA)
                   = trace scrA @ (case r1 of Inl e \<Rightarrow> [] | Inr k \<Rightarrow> [Rerender])
                                @ (case r2 of Inl e \<Rightarrow> [] | Inr k \<Rightarrow> [Rerender])"
    by (rule two_settled [OF aw]) simp
  show "trace (run [(sdk1, EndReached), (sdk2, EndReached)] scr)
          = trace scr @ [LoadPrevious c, LoadPrevious c]"
    using t by (simp only: scrA_def)
  show "trace (run [(sdk1, EndReached), (sdk2, EndReached),
                    (sdk3, LoadPreviousSettled c r1), (sdk4, LoadPreviousSettled c r2)] scr)
          = trace scr @ [LoadPrevious c, LoadPrevious c]
              @ (case r1 of Inl e \<Rightarrow> [] | Inr k \<Rightarrow> [Rerender])
              @ (case r2 of Inl e \<Rightarrow> [] | Inr k \<Rightarrow> [Rerender])"
    by (simp only: split settled t append_assoc)
next
  assume f: "hasNext (messageCollection sdk1 c) \<and> hasNext (messageCollection sdk2 c)"
  show "fst (onStartReached sdk1 scr) = Pending"
    using assms f by (simp add: onStartReached_def)
  show "fst (onStartReached sdk2 (snd (onStartReached sdk1 scr))) = Pending"
    using assms f by (simp add: onStartReached_def emit_def)
  define scrA where "scrA = run [(sdk1, StartReached), (sdk2, StartReached)] scr"
  have A: "scrA = scr\<lparr>awaiting := awaiting scr @ [AwaitLoadNext c, AwaitLoadNext c],
                       trace := trace scr @ [LoadNext c, LoadNext c]\<rparr>"
    unfolding scrA_def using assms(1,2,3) f by (intro two_start_reached) simp_all
  have t: "trace scrA = trace scr @ [LoadNext c, LoadNext c]" by (simp add: A)
  have aw: "awaiting scrA = awaiting scr @ [AwaitLoadNext c, AwaitLoadNext c]"
    by (simp add: A)
  have split: "run [(sdk1, StartReached), (sdk2, StartReached),
                    (sdk3, LoadNextSettled c r1), (sdk4, LoadNextSettled c r2)] scr
                 = run [(sdk3, LoadNextSettled c r1), (sdk4, LoadNextSettled c r2)] scrA"
    by (simp add: scrA_def)
  have settled: "trace (run [(sdk3, LoadNextSettled c r1), (sdk4, LoadNextSettled c r2)] scrA)
                   = trace scrA @ (case r1 of Inl e \<Rightarrow> [] | Inr k \<Rightarrow> [Rerender])
                                @ (case r2 of Inl e \<Rightarrow> [] | Inr k \<Rightarrow> [Rerender])"
    by (rule two_settled [OF aw]) simp
  show "trace (run [(sdk1, StartReached), (sdk2, StartReached)] scr)
          = trace scr @ [LoadNext c, LoadNext c]"
    using t by (simp only: scrA_def)
  show "trace (run [(sdk1, StartReached), (sdk2, StartReached),
                    (sdk3, LoadNextSettled c r1), (sdk4, LoadNextSettled c r2)] scr)
          = trace scr @ [LoadNext c, LoadNext c]
              @ (case r1 of Inl e \<Rightarrow> [] | Inr k \<Rightarrow> [Rerender])
              @ (case r2 of Inl e \<Rightarrow> [] | Inr k \<Rightarrow> [Rerender])"
    by (simp only: split settled t append_assoc)
next
  show "onReached_resumed r scr2
           = (case r of Inl e \<Rightarrow> (Rejected e, scr2)
              | Inr k \<Rightarrow> (Resolved, scr2\<lparr>trace := trace scr2 @ [Rerender]\<rparr>))"
    by (simp add: onReached_resumed_def emit_def split: sum.splits)
next
  assume f: "hasMore sdk1 \<and> hasMore sdk2"
  show "fst (listOnEndReached sdk1 l) = Resolved"
    by (simp add: listOnEndReached_def)
  show "fst (listOnEndReached sdk2 (snd (listOnEndReached sdk1 l))) = Resolved"
    by (simp add: listOnEndReached_def)
  show "listTrace (listRun [(sdk1, ListEndReached), (sdk2, ListEndReached)] l)
          = listTrace l @ [LoadMore, LoadMore]"
    using assms(4) f by (simp add: listOnEndReached_def listEmit_def)
  show "listTrace (listRun [(sdk1, ListEndReached), (sdk2, ListEndReached),
                            (sdk3, LoadMoreSettled r1), (sdk4, LoadMoreSettled r2)] l)
          = listTrace l @ [LoadMore, LoadMore]
              @ (case r1 of Inl e \<Rightarrow> [] | Inr k \<Rightarrow> [Rerender])
              @ (case r2 of Inl e \<Rightarrow> [] | Inr k \<Rightarrow> [Rerender])"
    using assms(4) f
    by (simp add: listOnEndReached_def listEmit_def forceUpdate_def split: sum.splits)
qed

theorem overlapping_loads_are_both_forwarded_witness:
  "trace (run [(exampleSdk True, EndReached), (exampleSdk True, EndReached),
               (exampleSdk True, LoadPreviousSettled 0 (Inr 10)),
               (exampleSdk True, LoadPreviousSettled 0 (Inl InProgress))] openedScreen)
     = trace openedScreen @ [LoadPrevious 0, LoadPrevious 0, Rerender]
   \<and> trace (run [(exampleSdk True, StartReached), (exampleSdk True, StartReached),
               (exampleSdk True, LoadNextSettled 0 (Inr 10)),
               (exampleSdk True, LoadNextSettled 0 (Inr 10))] openedScreen)
     = trace openedScreen @ [LoadNext 0, LoadNext 0, Rerender, Rerender]
   \<and> fst (onReached_resumed (Inl InProgress) openedScreen) = Rejected InProgress
   \<and> listTrace (listRun [(exampleSdk True, ListEndReached), (exampleSdk True, ListEndReached),
                          (exampleSdk True, LoadMoreSettled (Inr 10)),
                          (exampleSdk True, LoadMoreSettled (Inl InProgress))] mountedList)
     = listTrace mountedList @ [LoadMore, LoadMore, Rerender]"
proof -
  have h1: "phase openedScreen = Mounted" by (simp add: openedScreen_eq)
  have h2: "state openedScreen = Some \<lparr>channel = exampleChannel, collection = 0\<rparr>"
    by (simp add: openedScreen_eq)
  have h3: "0 = collection \<lparr>channel = exampleChannel, collection = 0\<rparr>" by simp
  have h4: "listPhase mountedList = Mounted" by (simp add: mountedList_eq)
  have f: "hasPrevious (messageCollection (exampleSdk True) 0)
           \<and> hasNext (messageCollection (exampleSdk True) 0)
           \<and> hasMore (exampleSdk True)"
    by (simp add: exampleSdk_def exampleCollection_def)
  show ?thesis
    using overlapping_loads_are_both_forwarded [OF h1 h2 h3 h4,
        of "exampleSdk True" "exampleSdk True" "exampleSdk True" "Inr 10" "exampleSdk True"
           "Inl InProgress" "Inl InProgress" openedScreen]
      overlapping_loads_are_both_forwarded [OF h1 h2 h3 h4,
        of "exampleSdk True" "exampleSdk True" "exampleSdk True" "Inr 10" "exampleSdk True"
           "Inr 10" "Inl InProgress" openedScreen]
      f
    by simp
qed


section \<open>Re-subscription after a gap\<close>

lemma run_append: "run (xs @ ys) scr = run ys (run xs scr)"
  by (induction xs arbitrary: scr) auto

lemma quiet_step:
  assumes "quiet a e" and "subscribedTo a scr"
  shows "subscribedTo a (step sdk e scr)
       \<and> closures (step sdk e scr) = closures scr
       \<and> filter lifecycleEffect (trace (step sdk e scr)) = filter lifecycleEffect (trace scr)
       \<and> (AwaitGetChannel u \<in> set (awaiting (step sdk e scr)))
           = (AwaitGetChannel u \<in> set (awaiting scr))"
  using assms
  by (cases e)
     (auto simp: subscribedTo_def emit_def resume_def withClosure_def onInitResult_def
        setState_def disposeCleanup_def onChannelDeleted_def onChannelUpdated_def
        onMessagesUpdated_def onMessagesAdded_def onMessagesDeleted_def
        onStartReached_def onEndReached_def onReached_resumed_def onUserBanned_def
        onUserLeft_def Let_def
        split: option.splits sum.splits if_splits)

lemma quiet_run:
  assumes "list_all (\<lambda>p. quiet a (snd p)) es" and "subscribedTo a scr"
  shows "subscribedTo a (run es scr)
       \<and> closures (run es scr) = closures scr
       \<and> filter lifecycleEffect (trace (run es scr)) = filter lifecycleEffect (trace scr)
       \<and> (AwaitGetChannel u \<in> set (awaiting (run es scr)))
           = (AwaitGetChannel u \<in> set (awaiting scr))"
  using assms
proof (induction es arbitrary: scr)
  case Nil
  then show ?case by simp
next
  case (Cons p es)
  obtain sdk e where p: "p = (sdk, e)" by (cases p)
  from Cons.prems have q: "quiet a e" and rest: "list_all (\<lambda>p. quiet a (snd p)) es"
    by (simp_all add: p)
  note one = quiet_step [OF q Cons.prems(2), of sdk u]
  from one have sub: "subscribedTo a (step sdk e scr)" by simp
  from Cons.IH [OF rest sub] one show ?case by (simp add: p)
qed

lemma gap_step:
  assumes "map_of (closures scr) a = Some (u, ch0)"
  shows "step sdk (HugeGapDetected a) scr
           = scr\<lparr>awaiting := awaiting scr @ [AwaitGetChannel u],
                  trace := trace scr @ [GetChannel u]\<rparr>"
  using assms
  by (simp add: withClosure_def onHugeGapDetected_def initializeCollection_def emit_def)

lemma fetch_resolved_step:
  assumes "AwaitGetChannel u \<in> set (awaiting scr)"
  shows "state (step sdk (GetChannelSettled u (Inr ch)) scr) = state scr
       \<and> phase (step sdk (GetChannelSettled u (Inr ch)) scr) = phase scr
       \<and> closures (step sdk (GetChannelSettled u (Inr ch)) scr)
           = closures scr @ [(length (closures scr), u, ch)]
       \<and> trace (step sdk (GetChannelSettled u (Inr ch)) scr)
           = trace scr @ [CreateMessageCollection (length (closures scr)),
                          SetMessageCollectionHandler (length (closures scr)),
                          Initialize (length (closures scr)), MarkAsRead (url ch)]"
  using assms
  by (simp add: resume_def initializeCollection_resumed_def emits_def Let_def)

lemma fetch_rejected_step:
  assumes "AwaitGetChannel u \<in> set (awaiting scr)"
  shows "state (step sdk (GetChannelSettled u (Inl e)) scr) = state scr
       \<and> closures (step sdk (GetChannelSettled u (Inl e)) scr) = closures scr
       \<and> trace (step sdk (GetChannelSettled u (Inl e)) scr) = trace scr @ [GoBack]"
  using assms
  by (simp add: resume_def initializeCollection_resumed_def emit_def)

lemma first_result_step:
  assumes "subscribedTo a scr"
      and "map_of (closures scr) new = Some (u, ch)"
      and "new \<noteq> a"
      and "first = CacheResult new n \<or> first = ApiResult new n"
  shows "state (step sdk first scr) = Some \<lparr>channel = ch, collection = new\<rparr>
       \<and> phase (step sdk first scr) = Mounted
       \<and> trace (step sdk first scr)
           = trace scr
             @ (case n of None \<Rightarrow> [] | Some k \<Rightarrow> if 0 < k then [Rerender] else [])
             @ [Dispose a]"
  using assms
  by (auto simp: subscribedTo_def withClosure_def onInitResult_def setState_def
      disposeCleanup_def emit_def Let_def split: option.splits)

text \<open>
  At the gap itself the screen disposes nothing: the handler only fetches the channel
  again, and when that fetch is rejected the screen goes back without a new collection.
  And the resync can go wrong: when the gap is detected before the first initialisation
  result of the first collection, the resync puts the new collection \<open>1\<close> into the state
  without disposing collection \<open>0\<close>; the first result of collection \<open>0\<close>, which comes
  afterwards, puts collection \<open>0\<close> back into the state and disposes the new one, and the
  list shows the messages of collection \<open>0\<close> again.
\<close>

theorem huge_gap_counterexample:
  "trace (step resyncSdk (HugeGapDetected 0) openedScreen)
     = trace openedScreen @ [GetChannel ''ch'']
   \<and> trace (run [(resyncSdk, HugeGapDetected 0),
                  (resyncSdk, GetChannelSettled ''ch'' (Inl NotFound))] openedScreen)
     = trace openedScreen @ [GetChannel ''ch'', GoBack]
   \<and> state (run gapBeforeFirstResult initialScreen)
     = Some \<lparr>channel = freshChannel, collection = 1\<rparr>
   \<and> trace (run gapBeforeFirstResult initialScreen)
     = [GetChannel ''ch'', AddGroupChannelHandler, CreateMessageCollection 0,
        SetMessageCollectionHandler 0, Initialize 0, MarkAsRead ''ch'', GetChannel ''ch'',
        CreateMessageCollection 1, SetMessageCollectionHandler 1, Initialize 1,
        MarkAsRead ''ch'', Rerender]
   \<and> Dispose 0 \<notin> set (trace (run gapBeforeFirstResult initialScreen))
   \<and> state (run (gapBeforeFirstResult @ [(resyncSdk, CacheResult 0 (Some 3))]) initialScreen)
     = Some \<lparr>channel = exampleChannel, collection = 0\<rparr>
   \<and> trace (run (gapBeforeFirstResult @ [(resyncSdk, CacheResult 0 (Some 3))]) initialScreen)
     = trace (run gapBeforeFirstResult initialScreen) @ [Rerender, Dispose 1]
   \<and> fst (render resyncSdk resyncHeap
             (run (gapBeforeFirstResult @ [(resyncSdk, CacheResult 0 (Some 3))]) initialScreen))
     = FlatList [2, 1, 4, 3, 7, 6, 5]"
  by (simp add: openedScreen_eq gapBeforeFirstResult_def initialScreen_def mount_def
      initializeCollection_def emit_def emits_def resume_def initializeCollection_resumed_def
      withClosure_def onInitResult_def onHugeGapDetected_def setState_def disposeCleanup_def
      exampleChannel_def freshChannel_def render_def flatListData_def js_reverse_def
      resyncSdk_def exampleCollection_def resyncHeap_def Let_def)

text \<open>
  C4, amended. When \<open>onHugeGapDetected\<close> arrives on the collection \<open>a\<close> that a mounted
  message screen holds in its state, the handler only starts \<open>initializeCollection\<close>
  again: it fetches the channel and disposes nothing at that moment. If the fetch is
  rejected, the screen goes back and creates no collection. If the fetch succeeds, a new
  collection is created, given its handler and initialised, and when the first
  initialisation result of the new collection arrives (from the cache or from the API),
  the new collection replaces \<open>a\<close> in the state and \<open>a\<close> is disposed: the new
  subscription is attached first, the old one disposed after. This holds with any
  events between these steps other than mounting, unmounting, another gap, another
  settled fetch or an initialisation result of a collection other than \<open>a\<close>. After it,
  as long as only such events follow (with the new collection in the place of \<open>a\<close>),
  the screen stays on the new collection, no further collection is created or disposed,
  and the list shows exactly the buckets of the new collection, so that an item the new
  collection does not hold is not shown. Nothing is said about a gap that arrives before
  the first initialisation result, nor about results of the old collection that arrive
  after the resync.
\<close>

theorem huge_gap_resync:
  assumes "scr = run es initialScreen"
      and "phase scr = Mounted"
      and "state scr = Some s"
      and "a = collection s"
      and "map_of (closures scr) a = Some (u, ch0)"
      and "new = length (closures scr)"
      and "list_all (\<lambda>p. quiet a (snd p)) es1"
      and "list_all (\<lambda>p. quiet a (snd p)) es2"
      and "list_all (\<lambda>p. quiet new (snd p)) es3"
      and "first = CacheResult new n \<or> first = ApiResult new n"
      and "scr' = run ([(sdk1, HugeGapDetected a)] @ es1
                       @ [(sdk2, GetChannelSettled u (Inr ch))] @ es2
                       @ [(sdk3, first)] @ es3) scr"
      and "c = messageCollection sdk new"
      and "distinct [failedMessages c, pendingMessages c, succeededMessages c]"
  shows "trace (step sdk1 (HugeGapDetected a) scr) = trace scr @ [GetChannel u]
     \<and> trace (run ([(sdk1, HugeGapDetected a)] @ es1
                    @ [(sdk2, GetChannelSettled u (Inl e))]) scr)
         = trace (run ([(sdk1, HugeGapDetected a)] @ es1) scr) @ [GoBack]
     \<and> closures (run ([(sdk1, HugeGapDetected a)] @ es1
                       @ [(sdk2, GetChannelSettled u (Inl e))]) scr) = closures scr
     \<and> new \<noteq> a
     \<and> phase scr' = Mounted
     \<and> map_option collection (state scr') = Some new
     \<and> filter lifecycleEffect (trace scr')
         = filter lifecycleEffect (trace scr)
           @ [GetChannel u, CreateMessageCollection new, SetMessageCollectionHandler new,
              Initialize new, Dispose a]
     \<and> fst (render sdk h scr') =
          FlatList (rev (h (failedMessages c)) @ rev (h (pendingMessages c))
                      @ rev (h (succeededMessages c)))"
proof -
  have wf: "wellFormed scr" unfolding assms(1) by (rule wellFormed_reachable)
  then have keys: "map fst (closures scr) = [0..<length (closures scr)]"
    by (simp add: wellFormed_def)
  have "collection s < length (closures scr)"
    using wf assms(3) by (simp add: wellFormed_def)
  then have ne: "new \<noteq> a" using assms(4,6) by simp
  have fresh: "map_of (closures scr) new = None"
    unfolding assms(6) using keys by (rule map_of_fresh)
  have sub0: "subscribedTo a scr"
    using assms(2,3,4) by (simp add: subscribedTo_def)
  define scr1 where "scr1 = step sdk1 (HugeGapDetected a) scr"
  have s1: "scr1 = scr\<lparr>awaiting := awaiting scr @ [AwaitGetChannel u],
                       trace := trace scr @ [GetChannel u]\<rparr>"
    unfolding scr1_def using assms(5) by (rule gap_step)
  have sub1: "subscribedTo a scr1" using sub0 by (simp add: s1 subscribedTo_def)
  define scr2 where "scr2 = run es1 scr1"
  note q2 = quiet_run [OF assms(7) sub1, of u, folded scr2_def]
  have aw2: "AwaitGetChannel u \<in> set (awaiting scr2)" using q2 by (simp add: s1)
  have cl2: "closures scr2 = closures scr" using q2 by (simp add: s1)
  have tr2: "filter lifecycleEffect (trace scr2)
               = filter lifecycleEffect (trace scr) @ [GetChannel u]"
    using q2 by (simp add: s1)
  have rej: "run ([(sdk1, HugeGapDetected a)] @ es1
                   @ [(sdk2, GetChannelSettled u (Inl e))]) scr
               = step sdk2 (GetChannelSettled u (Inl e)) scr2"
    by (simp add: run_append scr1_def scr2_def)
  have pre: "run ([(sdk1, HugeGapDetected a)] @ es1) scr = scr2"
    by (simp add: run_append scr1_def scr2_def)
  note fr = fetch_rejected_step [OF aw2, of sdk2 e]
  define scr3 where "scr3 = step sdk2 (GetChannelSettled u (Inr ch)) scr2"
  note f3 = fetch_resolved_step [OF aw2, of sdk2 ch, folded scr3_def]
  have sub3: "subscribedTo a scr3" using f3 q2 by (simp add: subscribedTo_def)
  have cl3: "closures scr3 = closures scr @ [(new, u, ch)]"
    using f3 by (simp add: cl2 assms(6))
  have tr3: "filter lifecycleEffect (trace scr3)
               = filter lifecycleEffect (trace scr)
                 @ [GetChannel u, CreateMessageCollection new,
                    SetMessageCollectionHandler new, Initialize new]"
    using f3 by (simp add: tr2 cl2 assms(6))
  define scr4 where "scr4 = run es2 scr3"
  note q4 = quiet_run [OF assms(8) sub3, of u, folded scr4_def]
  have sub4: "subscribedTo a scr4" using q4 by simp
  have look: "map_of (closures scr4) new = Some (u, ch)"
    using q4 fresh by (simp add: cl3 map_add_def)
  define scr5 where "scr5 = step sdk3 first scr4"
  note r5 = first_result_step [OF sub4 look ne assms(10), of sdk3, folded scr5_def]
  have sub5: "subscribedTo new scr5" using r5 by (simp add: subscribedTo_def)
  have tr5: "filter lifecycleEffect (trace scr5)
               = filter lifecycleEffect (trace scr)
                 @ [GetChannel u, CreateMessageCollection new,
                    SetMessageCollectionHandler new, Initialize new, Dispose a]"
    using r5 q4 by (simp add: tr3 split: option.splits)
  have fin: "scr' = run es3 scr5"
    by (simp add: assms(11) run_append scr1_def scr2_def scr3_def scr4_def scr5_def)
  note q6 = quiet_run [OF assms(9) sub5, of u, folded fin]
  have ph: "phase scr' = Mounted" and st: "map_option collection (state scr') = Some new"
    using q6 by (simp_all add: subscribedTo_def)
  have tr: "filter lifecycleEffect (trace scr')
              = filter lifecycleEffect (trace scr)
                @ [GetChannel u, CreateMessageCollection new,
                   SetMessageCollectionHandler new, Initialize new, Dispose a]"
    using q6 by (simp add: tr5)
  have "fst (flatListData c h) =
          rev (h (failedMessages c)) @ rev (h (pendingMessages c)) @ rev (h (succeededMessages c))"
    using assms(13) by (intro flatListData_buckets) auto
  then have rd: "fst (render sdk h scr') =
          FlatList (rev (h (failedMessages c)) @ rev (h (pendingMessages c))
                      @ rev (h (succeededMessages c)))"
    using st assms(12) by (auto simp: render_def split: prod.splits)
  have c1: "trace (step sdk1 (HugeGapDetected a) scr) = trace scr @ [GetChannel u]"
    using s1 by (simp add: scr1_def)
  have c2: "trace (run ([(sdk1, HugeGapDetected a)] @ es1
                    @ [(sdk2, GetChannelSettled u (Inl e))]) scr)
         = trace (run ([(sdk1, HugeGapDetected a)] @ es1) scr) @ [GoBack]"
    unfolding rej pre using fr by simp
  have c3: "closures (run ([(sdk1, HugeGapDetected a)] @ es1
                       @ [(sdk2, GetChannelSettled u (Inl e))]) scr) = closures scr"
    unfolding rej using fr by (simp add: cl2)
  from c1 c2 c3 ne ph st tr rd show ?thesis by blast
qed

theorem huge_gap_resync_witness:
  "fst (render resyncSdk resyncHeap openedScreen) = FlatList [2, 1, 4, 3, 7, 6, 5]
   \<and> map_option collection (state (run resyncEvents openedScreen)) = Some 1
   \<and> filter lifecycleEffect (trace (run resyncEvents openedScreen))
       = [GetChannel ''ch'', CreateMessageCollection 0, SetMessageCollectionHandler 0,
          Initialize 0, GetChannel ''ch'', CreateMessageCollection 1,
          SetMessageCollectionHandler 1, Initialize 1, Dispose 0]
   \<and> fst (render resyncSdk resyncHeap (run resyncEvents openedScreen)) = FlatList [8, 7, 6]"
proof -
  have h1: "openedScreen =
      run [(exampleSdk True, Mount (Some ''ch'')),
           (exampleSdk True, GetChannelSettled ''ch'' (Inr exampleChannel)),
           (exampleSdk True, CacheResult 0 (Some 3))] initialScreen"
    by (simp only: openedScreen_def)
  have h2: "phase openedScreen = Mounted" by (simp add: openedScreen_eq)
  have h3: "state openedScreen = Some \<lparr>channel = exampleChannel, collection = 0\<rparr>"
    by (simp add: openedScreen_eq)
  have h4: "0 = collection \<lparr>channel = exampleChannel, collection = 0\<rparr>" by simp
  have h5: "map_of (closures openedScreen) 0 = Some (''ch'', exampleChannel)"
    by (simp add: openedScreen_eq)
  have h6: "1 = length (closures openedScreen)" by (simp add: openedScreen_eq)
  have h7: "list_all (\<lambda>p. quiet 0 (snd p)) [(resyncSdk, MessagesAdded 0 EVENT_MESSAGE_RECEIVED)]"
    by simp
  have h8: "list_all (\<lambda>p. quiet 0 (snd p)) [(resyncSdk, EndReached)]" by simp
  have h9: "list_all (\<lambda>p. quiet 1 (snd p))
              [(resyncSdk, ApiResult 1 (Some 3)), (resyncSdk, MessagesUpdated 1)]"
    by simp
  have h10: "CacheResult 1 (Some 3) = CacheResult 1 (Some 3)
             \<or> CacheResult 1 (Some 3) = ApiResult 1 (Some 3)"
    by simp
  have h11: "run resyncEvents openedScreen =
      run ([(resyncSdk, HugeGapDetected 0)]
           @ [(resyncSdk, MessagesAdded 0 EVENT_MESSAGE_RECEIVED)]
           @ [(resyncSdk, GetChannelSettled ''ch'' (Inr freshChannel))]
           @ [(resyncSdk, EndReached)]
           @ [(resyncSdk, CacheResult 1 (Some 3))]
           @ [(resyncSdk, ApiResult 1 (Some 3)), (resyncSdk, MessagesUpdated 1)]) openedScreen"
    by (simp only: resyncEvents_def append.simps)
  have h12: "messageCollection resyncSdk 1 = messageCollection resyncSdk 1" by simp
  have h13: "distinct [failedMessages (messageCollection resyncSdk 1),
                       pendingMessages (messageCollection resyncSdk 1),
                       succeededMessages (messageCollection resyncSdk 1)]"
    by (simp add: resyncSdk_def)
  have before: "fst (render resyncSdk resyncHeap openedScreen) = FlatList [2, 1, 4, 3, 7, 6, 5]"
    by (simp add: openedScreen_eq render_def flatListData_def js_reverse_def resyncSdk_def
        exampleCollection_def resyncHeap_def Let_def)
  show ?thesis
    using huge_gap_resync [OF h1 h2 h3 h4 h5 h6 h7 h8 h9 h10 h11 h12 h13, of NotFound resyncHeap]
      before
    by (simp add: openedScreen_eq resyncSdk_def resyncHeap_def)
qed


section \<open>Losing access to the channel\<close>

text \<open>
  The banned/left handler is registered by an effect with an empty dependency list, in
  the first commit, where the state is still undefined. Its comparison of the event's
  channel with \<open>state?.channel.url\<close> therefore never succeeds: on no reachable screen does
  a banned or left event change anything.
\<close>

lemma bannedLeft_never_navigates:
  "step sdk (UserBanned ch u) (run es initialScreen) = run es initialScreen
   \<and> step sdk (UserLeft ch u) (run es initialScreen) = run es initialScreen"
proof -
  have "wellFormed (run es initialScreen)" by (rule wellFormed_reachable)
  then have "bannedLeftHandler (run es initialScreen) = None
             \<or> bannedLeftHandler (run es initialScreen) = Some None"
    by (auto simp: wellFormed_def split: if_splits)
  then show ?thesis
    by (auto simp: onUserBanned_def onUserLeft_def)
qed

text \<open>
  C6. The claim: when the channel is deleted, or the current user is banned from it or
  leaves it on another device, the screen navigates away. Evaluated on the screen opened
  on channel \<open>ch\<close> with current user \<open>me\<close>: the deletion of the channel calls
  \<open>goBack\<close>, but the events that \<open>me\<close> was banned from \<open>ch\<close> and that \<open>me\<close> left \<open>ch\<close>
  leave the trace as it was, with no \<open>goBack\<close> in it.
\<close>

theorem banned_or_left_does_not_go_back:
  "state openedScreen = Some \<lparr>channel = exampleChannel, collection = 0\<rparr>
   \<and> currentUser (exampleSdk True) = Some ''me''
   \<and> trace (step (exampleSdk True) (UserBanned exampleChannel ''me'') openedScreen)
       = trace openedScreen
   \<and> trace (step (exampleSdk True) (UserLeft exampleChannel ''me'') openedScreen)
       = trace openedScreen
   \<and> GoBack \<notin> set (trace openedScreen)
   \<and> trace (step (exampleSdk True) (ChannelDeleted 0) openedScreen)
       = trace openedScreen @ [GoBack]"
  by (simp add: openedScreen_eq exampleSdk_def onUserBanned_def onUserLeft_def
      withClosure_def onChannelDeleted_def emit_def)

text \<open>
  Had the handler seen the current state, the same event would have navigated back.
\<close>

lemma onUserBanned_with_current_state:
  "trace (onUserBanned (state openedScreen) (exampleSdk True) exampleChannel ''me'' openedScreen)
     = trace openedScreen @ [GoBack]"
  by (simp add: openedScreen_eq exampleSdk_def onUserBanned_def emit_def)


section \<open>Marking as read\<close>

text \<open>
  C7. On a messages-added event the channel is marked as read exactly when the source of
  the event is \<open>SYNC_MESSAGE_FILL\<close> or \<open>EVENT_MESSAGE_RECEIVED\<close>: the handler of a
  collection always asks for a re-render, and a call of \<open>markAsRead\<close> on the channel the
  collection was created from follows it if and only if the source is one of the two.
\<close>

theorem onMessagesAdded_markAsRead_iff:
  assumes "map_of (closures scr) c = Some (u, ch)"
  shows "(trace (step sdk (MessagesAdded c source) scr)
            = trace scr @ [Rerender, MarkAsRead (url ch)])
          = (source = SYNC_MESSAGE_FILL \<or> source = EVENT_MESSAGE_RECEIVED)
       \<and> (trace (step sdk (MessagesAdded c source) scr) = trace scr @ [Rerender])
          = (source \<noteq> SYNC_MESSAGE_FILL \<and> source \<noteq> EVENT_MESSAGE_RECEIVED)
       \<and> (MarkAsRead (url ch)
            \<in> set (drop (length (trace scr)) (trace (step sdk (MessagesAdded c source) scr))))
          = (source = SYNC_MESSAGE_FILL \<or> source = EVENT_MESSAGE_RECEIVED)"
proof -
  have handler: "step sdk (MessagesAdded c source) scr = onMessagesAdded ch source scr"
    using assms by (simp add: withClosure_def)
  show ?thesis
  proof (cases "source = SYNC_MESSAGE_FILL \<or> source = EVENT_MESSAGE_RECEIVED")
    case True
    then have "trace (onMessagesAdded ch source scr)
                 = trace scr @ [Rerender, MarkAsRead (url ch)]"
      by (auto simp: onMessagesAdded_def emit_def Let_def)
    with True show ?thesis unfolding handler by auto
  next
    case False
    then have "trace (onMessagesAdded ch source scr) = trace scr @ [Rerender]"
      by (auto simp: onMessagesAdded_def emit_def Let_def)
    with False show ?thesis unfolding handler by auto
  qed
qed

theorem onMessagesAdded_markAsRead_iff_witness:
  "trace (step (exampleSdk True) (MessagesAdded 0 EVENT_MESSAGE_RECEIVED) openedScreen)
     = trace openedScreen @ [Rerender, MarkAsRead ''ch'']
   \<and> trace (step (exampleSdk True) (MessagesAdded 0 (OtherSource 7)) openedScreen)
     = trace openedScreen @ [Rerender]"
proof -
  have h: "map_of (closures openedScreen) 0 = Some (''ch'', exampleChannel)"
    by (simp add: openedScreen_eq)
  show ?thesis
    using onMessagesAdded_markAsRead_iff [OF h, of "exampleSdk True" EVENT_MESSAGE_RECEIVED]
      onMessagesAdded_markAsRead_iff [OF h, of "exampleSdk True" "OtherSource 7"]
    by (simp add: exampleChannel_def)
qed


section \<open>Disposal on unmount\<close>

text \<open>The channel list disposes its collection whenever it is unmounted.\<close>

lemma list_unmount_disposes:
  "listPhase l = Mounted \<Longrightarrow>
   listTrace (listStep sdk ListUnmount l) = listTrace l @ [DisposeGroupChannelCollection]"
  by (simp add: listUnmount_def listEmit_def)

text \<open>
  C8. The claim: on unmount the collection is disposed whatever state was reached, also
  before the initialisation is complete. Evaluated on the message screen: unmounted
  after the collection was created but before the first result of \<open>initialize\<close>, and
  unmounted while \<open>getChannel\<close> was pending, the screen creates and initialises
  collection \<open>0\<close> and never disposes it; unmounted after the first result, it does.
\<close>

theorem unmount_before_first_result_disposes_nothing:
  "trace (run [(exampleSdk True, Mount (Some ''ch'')),
               (exampleSdk True, GetChannelSettled ''ch'' (Inr exampleChannel)),
               (exampleSdk True, Unmount),
               (exampleSdk True, CacheResult 0 (Some 3)),
               (exampleSdk True, ApiResult 0 (Some 3))] initialScreen)
     = [GetChannel ''ch'', AddGroupChannelHandler, CreateMessageCollection 0,
        SetMessageCollectionHandler 0, Initialize 0, MarkAsRead ''ch'',
        RemoveGroupChannelHandler, Rerender, Rerender]
   \<and> trace (run [(exampleSdk True, Mount (Some ''ch'')),
               (exampleSdk True, Unmount),
               (exampleSdk True, GetChannelSettled ''ch'' (Inr exampleChannel)),
               (exampleSdk True, CacheResult 0 (Some 3))] initialScreen)
     = [GetChannel ''ch'', AddGroupChannelHandler, RemoveGroupChannelHandler,
        CreateMessageCollection 0, SetMessageCollectionHandler 0, Initialize 0,
        MarkAsRead ''ch'', Rerender]
   \<and> trace (run [(exampleSdk True, Unmount)] openedScreen)
     = trace openedScreen @ [Dispose 0, RemoveGroupChannelHandler]"
  by (simp add: openedScreen_eq initialScreen_def mount_def unmount_def initializeCollection_def
      emit_def emits_def resume_def initializeCollection_resumed_def withClosure_def
      onInitResult_def setState_def disposeCleanup_def exampleChannel_def Let_def)


section \<open>The access token of the connect screen\<close>

lemma signIn_ignores_accessToken:
  "signIn connect (st\<lparr>accessToken := t\<rparr>) root = signIn connect st root"
  by (simp add: signIn_def)

lemma connectStep_unwinding:
  assumes "id_text st = id_text st'"
  shows "id_text (fst (connectStep connect e (st, root)))
           = id_text (fst (connectStep connect e (st', root)))
       \<and> snd (connectStep connect e (st, root)) = snd (connectStep connect e (st', root))"
  using assms by (cases e) (simp_all add: signIn_def)

lemma connectStep_token_edit:
  "isAccessTokenEdit e \<Longrightarrow>
     id_text (fst (connectStep connect e (st, root))) = id_text st
   \<and> snd (connectStep connect e (st, root)) = root"
  by (cases e) simp_all

lemma connectRun_filter:
  assumes "id_text st = id_text st'"
  shows "snd (connectRun connect es (st, root))
       = snd (connectRun connect (filter (\<lambda>e. \<not> isAccessTokenEdit e) es) (st', root))"
  using assms
proof (induction es arbitrary: st st' root)
  case Nil
  then show ?case by simp
next
  case (Cons e es)
  obtain st1 root1 where a: "connectStep connect e (st, root) = (st1, root1)"
    by (cases "connectStep connect e (st, root)")
  show ?case
  proof (cases "isAccessTokenEdit e")
    case True
    with a have "id_text st1 = id_text st" and "root1 = root"
      using connectStep_token_edit [of e connect st root] by simp_all
    with Cons.prems have "id_text st1 = id_text st'" by simp
    from Cons.IH [OF this] show ?thesis using True a \<open>root1 = root\<close> by simp
  next
    case False
    obtain st2 root2 where b: "connectStep connect e (st', root) = (st2, root2)"
      by (cases "connectStep connect e (st', root)")
    from connectStep_unwinding [OF Cons.prems, of connect e root] a b
    have "id_text st1 = id_text st2" and "root1 = root2" by simp_all
    from Cons.IH [OF this(1)] show ?thesis using False a b \<open>root1 = root2\<close> by simp
  qed
qed

text \<open>
  C10. The access token typed into the connect screen does not influence the
  connection: two runs of the screen whose events differ only in the edits of the
  access-token field make the same calls of \<open>sdk.connect\<close> and store the same user; and
  each call that \<open>signIn\<close> makes passes the user id alone, with no token.
\<close>

theorem accessToken_noninterference:
  assumes "filter (\<lambda>e. \<not> isAccessTokenEdit e) es1 = filter (\<lambda>e. \<not> isAccessTokenEdit e) es2"
  shows "snd (connectRun connect es1 (initialConnectState, root))
           = snd (connectRun connect es2 (initialConnectState, root))
       \<and> connectCalls (snd (signIn connect st root)) = connectCalls root @ [(id_text st, None)]"
proof -
  have "snd (connectRun connect es1 (initialConnectState, root))
      = snd (connectRun connect (filter (\<lambda>e. \<not> isAccessTokenEdit e) es1)
               (initialConnectState, root))"
    by (rule connectRun_filter) simp
  also have "\<dots> = snd (connectRun connect (filter (\<lambda>e. \<not> isAccessTokenEdit e) es2)
                        (initialConnectState, root))"
    by (simp only: assms)
  also have "\<dots> = snd (connectRun connect es2 (initialConnectState, root))"
    by (rule connectRun_filter [symmetric]) simp
  finally have "snd (connectRun connect es1 (initialConnectState, root))
                  = snd (connectRun connect es2 (initialConnectState, root))" .
  moreover have "connectCalls (snd (signIn connect st root))
                   = connectCalls root @ [(id_text st, None)]"
    by (simp add: signIn_def Let_def split: sum.splits)
  ultimately show ?thesis by simp
qed

theorem accessToken_noninterference_witness:
  "snd (connectRun (\<lambda>i t. if t = None then Inr i else Inr ''other'')
          [ChangeId ''alice'', ChangeAccessToken ''secret'', PressConnect]
          (initialConnectState, \<lparr>user = None, connectCalls = []\<rparr>))
     = snd (connectRun (\<lambda>i t. if t = None then Inr i else Inr ''other'')
          [ChangeAccessToken ''x'', ChangeId ''alice'', PressConnect]
          (initialConnectState, \<lparr>user = None, connectCalls = []\<rparr>))
   \<and> snd (connectRun (\<lambda>i t. if t = None then Inr i else Inr ''other'')
          [ChangeId ''alice'', ChangeAccessToken ''secret'', PressConnect]
          (initialConnectState, \<lparr>user = None, connectCalls = []\<rparr>))
     = \<lparr>user = Some ''alice'', connectCalls = [(''alice'', None)]\<rparr>"
proof -
  have f: "filter (\<lambda>e. \<not> isAccessTokenEdit e)
             [ChangeId ''alice'', ChangeAccessToken ''secret'', PressConnect]
         = filter (\<lambda>e. \<not> isAccessTokenEdit e)
             [ChangeAccessToken ''x'', ChangeId ''alice'', PressConnect]"
    by simp
  have v: "snd (connectRun (\<lambda>i t. if t = None then Inr i else Inr ''other'')
          [ChangeId ''alice'', ChangeAccessToken ''secret'', PressConnect]
          (initialConnectState, \<lparr>user = None, connectCalls = []\<rparr>))
     = \<lparr>user = Some ''alice'', connectCalls = [(''alice'', None)]\<rparr>"
    by (simp add: signIn_def initialConnectState_def)
  show ?thesis
    using accessToken_noninterference [OF f,
        of "\<lambda>i t. if t = None then Inr i else Inr ''other''"
           "\<lparr>user = None, connectCalls = []\<rparr>"] v
    by simp
qed

end
